theory Spec2Isabelle
  imports Complex_Main "HOL-Library.AList" "HOL-Library.List_Lexorder"
begin

section \<open>Text: Python strings as lists of code points\<close>

text \<open>
  A Python \<open>str\<close> is a sequence of Unicode code points, so the model's strings are lists of
  natural numbers. \<open>asc\<close> turns an ASCII literal into such a list.
\<close>

type_synonym ustr = "nat list"

definition asc :: "string \<Rightarrow> ustr" where
  "asc s = map of_char s"

text \<open>
  The operations of Python's standard library that read the Unicode character database
  (\<open>str.lower\<close>, \<open>str.upper\<close>, \<open>str.capitalize\<close>, \<open>unicodedata.normalize\<close>, and the classes
  behind \<open>\\w\<close>, \<open>\\d\<close>, \<open>\\s\<close> and \<open>str.strip\<close>) are not part of the repository. They are
  a parameter of the model: every function that calls one of them takes the database as
  its first argument.
\<close>

record unicode =
  lower :: "ustr \<Rightarrow> ustr"
  upper :: "ustr \<Rightarrow> ustr"
  capitalize :: "ustr \<Rightarrow> ustr"
  nfkc :: "ustr \<Rightarrow> ustr"
  nfkd :: "ustr \<Rightarrow> ustr"
  is_word :: "nat \<Rightarrow> bool"
  is_digit :: "nat \<Rightarrow> bool"
  is_space :: "nat \<Rightarrow> bool"

text \<open>
  \<open>py_ascii\<close> is the database restricted to what the concrete inputs below contain: it is
  Python's behaviour on code points below 128 and on U+2019 (which has no case, no
  decomposition, and is neither a word character, a digit nor white space). White space
  is the full list of \<open>str.isspace\<close>.
\<close>

definition ascii_lower :: "nat \<Rightarrow> nat" where
  "ascii_lower c = (if 65 \<le> c \<and> c \<le> 90 then c + 32 else c)"

definition ascii_upper :: "nat \<Rightarrow> nat" where
  "ascii_upper c = (if 97 \<le> c \<and> c \<le> 122 then c - 32 else c)"

definition ascii_capitalize :: "ustr \<Rightarrow> ustr" where
  "ascii_capitalize s = (case s of [] \<Rightarrow> [] | c # r \<Rightarrow> ascii_upper c # map ascii_lower r)"

definition ascii_word :: "nat \<Rightarrow> bool" where
  "ascii_word c = ((48 \<le> c \<and> c \<le> 57) \<or> (65 \<le> c \<and> c \<le> 90) \<or> c = 95 \<or> (97 \<le> c \<and> c \<le> 122))"

definition ascii_digit :: "nat \<Rightarrow> bool" where
  "ascii_digit c = (48 \<le> c \<and> c \<le> 57)"

definition py_space :: "nat \<Rightarrow> bool" where
  "py_space c = ((9 \<le> c \<and> c \<le> 13) \<or> (28 \<le> c \<and> c \<le> 32) \<or> c = 133 \<or> c = 160
     \<or> c = 5760 \<or> (8192 \<le> c \<and> c \<le> 8202) \<or> c = 8232 \<or> c = 8233 \<or> c = 8239
     \<or> c = 8287 \<or> c = 12288)"

definition py_ascii :: unicode where
  "py_ascii = \<lparr> lower = map ascii_lower, upper = map ascii_upper,
     capitalize = ascii_capitalize, nfkc = (\<lambda>s. s), nfkd = (\<lambda>s. s),
     is_word = ascii_word, is_digit = ascii_digit, is_space = py_space \<rparr>"

subsection \<open>String methods\<close>

fun starts_with :: "ustr \<Rightarrow> ustr \<Rightarrow> bool" where
  "starts_with [] s = True"
| "starts_with (a # w) [] = False"
| "starts_with (a # w) (c # s) = (if a = c then starts_with w s else False)"

text \<open>\<open>sub in s\<close>.\<close>

fun contains :: "ustr \<Rightarrow> ustr \<Rightarrow> bool" where
  "contains w [] = (w = [])"
| "contains w (c # s) = (if starts_with w (c # s) then True else contains w s)"

text \<open>
  \<open>s.replace(old, new)\<close>: the occurrences of \<open>old\<close> are replaced from left to right
  without overlap; an empty \<open>old\<close> matches before every character and at the end.
\<close>

function replace_ne :: "ustr \<Rightarrow> ustr \<Rightarrow> ustr \<Rightarrow> ustr" where
  "replace_ne old new [] = []"
| "replace_ne old new (c # s) =
     (if old \<noteq> [] \<and> starts_with old (c # s)
      then new @ replace_ne old new (drop (length old) (c # s))
      else c # replace_ne old new s)"
  by pat_completeness auto
termination
  by (relation "measure (\<lambda>(old, new, s). length s)") auto

definition replace :: "ustr \<Rightarrow> ustr \<Rightarrow> ustr \<Rightarrow> ustr" where
  "replace old new s =
     (if old = [] then new @ concat (map (\<lambda>c. c # new) s) else replace_ne old new s)"

text \<open>\<open>s.strip()\<close> removes white space at both ends, \<open>s.strip(chars)\<close> the given characters.\<close>

definition strip_by :: "(nat \<Rightarrow> bool) \<Rightarrow> ustr \<Rightarrow> ustr" where
  "strip_by P s = rev (dropWhile P (rev (dropWhile P s)))"

definition strip :: "unicode \<Rightarrow> ustr \<Rightarrow> ustr" where
  "strip U s = strip_by (is_space U) s"

definition strip_chars :: "ustr \<Rightarrow> ustr \<Rightarrow> ustr" where
  "strip_chars cs s = strip_by (\<lambda>c. c \<in> set cs) s"

section \<open>Regular expressions\<close>

text \<open>
  The fragment of Python's \<open>re\<close> syntax that the patterns of the program are written in:
  literal text, character sets with ranges and \<open>\\s\<close>, negated sets, \<open>\\d\<close>, \<open>\\s\<close>, the word
  boundary \<open>\\b\<close>, sequence, alternation, \<open>?\<close>, and \<open>*\<close> and \<open>+\<close> on a single-character atom.
\<close>

datatype citem = CChar nat | CRange nat nat | CSpace

datatype atom = Chr nat | Set "citem list" | NSet "citem list" | Digit | Space

datatype rx = Eps | Lit ustr | At atom | WB | Seq rx rx | Alt rx rx | Opt rx
  | Star atom | Plus atom

fun citem_ok :: "unicode \<Rightarrow> citem \<Rightarrow> nat \<Rightarrow> bool" where
  "citem_ok U (CChar a) c = (c = a)"
| "citem_ok U (CRange a b) c = (a \<le> c \<and> c \<le> b)"
| "citem_ok U CSpace c = is_space U c"

fun in_set :: "unicode \<Rightarrow> citem list \<Rightarrow> nat \<Rightarrow> bool" where
  "in_set U [] c = False"
| "in_set U (i # is) c = (if citem_ok U i c then True else in_set U is c)"

fun atom_ok :: "unicode \<Rightarrow> atom \<Rightarrow> nat \<Rightarrow> bool" where
  "atom_ok U (Chr a) c = (c = a)"
| "atom_ok U (Set is) c = in_set U is c"
| "atom_ok U (NSet is) c = (\<not> in_set U is c)"
| "atom_ok U Digit c = is_digit U c"
| "atom_ok U Space c = is_space U c"

text \<open>
  A position in the subject is the character before it (\<open>None\<close> at the start) and the text
  after it. \<open>\\b\<close> holds where exactly one of the two neighbours is a word character, the
  outside of the string counting as a non-word character.
\<close>

definition word_before :: "unicode \<Rightarrow> nat option \<Rightarrow> bool" where
  "word_before U p = (case p of None \<Rightarrow> False | Some c \<Rightarrow> is_word U c)"

definition word_after :: "unicode \<Rightarrow> ustr \<Rightarrow> bool" where
  "word_after U s = (case s of [] \<Rightarrow> False | c # r \<Rightarrow> is_word U c)"

definition at_boundary :: "unicode \<Rightarrow> nat option \<Rightarrow> ustr \<Rightarrow> bool" where
  "at_boundary U p s = (word_before U p \<noteq> word_after U s)"

text \<open>
  \<open>run\<close> is a greedy repetition of an atom: the positions after the longest run first,
  then after each shorter one.
\<close>

fun run :: "unicode \<Rightarrow> atom \<Rightarrow> nat option \<Rightarrow> ustr \<Rightarrow> (nat option \<times> ustr) list" where
  "run U a p [] = [(p, [])]"
| "run U a p (c # s) =
     (if atom_ok U a c then run U a (Some c) s @ [(p, c # s)] else [(p, c # s)])"

text \<open>
  \<open>rmatch U r p s\<close> lists the positions at which a match of \<open>r\<close> starting at position
  \<open>(p, s)\<close> can end, in the order in which a backtracking matcher tries them; the first one
  is the match that \<open>re\<close> reports.
\<close>

fun rmatch :: "unicode \<Rightarrow> rx \<Rightarrow> nat option \<Rightarrow> ustr \<Rightarrow> (nat option \<times> ustr) list" where
  "rmatch U Eps p s = [(p, s)]"
| "rmatch U (Lit w) p s =
     (if w = [] then [(p, s)]
      else if starts_with w s then [(Some (last w), drop (length w) s)] else [])"
| "rmatch U (At a) p s =
     (case s of [] \<Rightarrow> [] | c # r \<Rightarrow> if atom_ok U a c then [(Some c, r)] else [])"
| "rmatch U WB p s = (if at_boundary U p s then [(p, s)] else [])"
| "rmatch U (Seq a b) p s = concat (map (\<lambda>q. rmatch U b (fst q) (snd q)) (rmatch U a p s))"
| "rmatch U (Alt a b) p s = rmatch U a p s @ rmatch U b p s"
| "rmatch U (Opt a) p s = rmatch U a p s @ [(p, s)]"
| "rmatch U (Star a) p s = run U a p s"
| "rmatch U (Plus a) p s =
     (case s of [] \<Rightarrow> [] | c # r \<Rightarrow> if atom_ok U a c then run U a (Some c) r else [])"

text \<open>\<open>re.match\<close> tries the start of the string only; \<open>re.search\<close> every position from the left.
  Both are used for their truth value.\<close>

definition re_match :: "unicode \<Rightarrow> rx \<Rightarrow> ustr \<Rightarrow> bool" where
  "re_match U r s = (rmatch U r None s \<noteq> [])"

fun search_from :: "unicode \<Rightarrow> rx \<Rightarrow> nat option \<Rightarrow> ustr \<Rightarrow> bool" where
  "search_from U r p [] = (rmatch U r p [] \<noteq> [])"
| "search_from U r p (c # s) =
     (if rmatch U r p (c # s) \<noteq> [] then True else search_from U r (Some c) s)"

definition re_search :: "unicode \<Rightarrow> rx \<Rightarrow> ustr \<Rightarrow> bool" where
  "re_search U r s = search_from U r None s"

text \<open>
  \<open>re.sub(pattern, repl, s)\<close> with a literal replacement: at each position from the left the
  first match is replaced and the scan goes on after it; where nothing matches, the
  character is copied. Where the first match is empty it is replaced, and the scan goes on
  at the same position for a match that is not empty: the first such match is replaced
  too, and when there is none the character is copied.
\<close>

function sub_from :: "unicode \<Rightarrow> rx \<Rightarrow> ustr \<Rightarrow> nat option \<Rightarrow> ustr \<Rightarrow> ustr" where
  "sub_from U r repl p [] = (if rmatch U r p [] \<noteq> [] then repl else [])"
| "sub_from U r repl p (c # s) =
     (case rmatch U r p (c # s) of
        [] \<Rightarrow> c # sub_from U r repl (Some c) s
      | (p', s') # ms \<Rightarrow>
          if length s' < length (c # s) then repl @ sub_from U r repl p' s'
          else (case find (\<lambda>m. length (snd m) < length (c # s)) ms of
                  None \<Rightarrow> repl @ c # sub_from U r repl (Some c) s
                | Some (p'', s'') \<Rightarrow> repl @ repl @ sub_from U r repl p'' s''))"
  by pat_completeness auto
termination
  apply (relation "measure (\<lambda>(U, r, repl, p, s). length s)")
     apply (auto simp: find_Some_iff)
  apply (metis snd_conv)
  done

definition re_sub :: "unicode \<Rightarrow> rx \<Rightarrow> ustr \<Rightarrow> ustr \<Rightarrow> ustr" where
  "re_sub U r repl s = sub_from U r repl None s"

text \<open>Helpers for writing patterns down.\<close>

fun cat :: "rx list \<Rightarrow> rx" where
  "cat [] = Eps"
| "cat [r] = r"
| "cat (r # rs) = Seq r (cat rs)"

definition lit :: "string \<Rightarrow> rx" where
  "lit s = Lit (asc s)"

definition ch :: "char \<Rightarrow> rx" where
  "ch c = At (Chr (of_char c))"

definition cc :: "char \<Rightarrow> citem" where
  "cc c = CChar (of_char c)"

definition rng :: "char \<Rightarrow> char \<Rightarrow> citem" where
  "rng a b = CRange (of_char a) (of_char b)"

text \<open>\<open>\\bTEXT\\b\<close>\<close>

definition word :: "string \<Rightarrow> rx" where
  "word s = cat [WB, lit s, WB]"

text \<open>\<open>[-\\s]?\<close>\<close>

definition opt_sep :: rx where
  "opt_sep = Opt (At (Set [cc CHR ''-'', CSpace]))"

text \<open>\<open>'?s?\<close>\<close>

definition opt_possessive :: rx where
  "opt_possessive = Seq (Opt (ch (CHR 0x27))) (Opt (ch CHR ''s''))"


section \<open>The program: \<open>scripts/build_crosswalk.py\<close>\<close>

text \<open>
  \<open>normalize_text\<close>: a missing value is the empty string; NFKC, then \<open>strip()\<close>.
\<close>

definition normalize_text :: "unicode \<Rightarrow> ustr option \<Rightarrow> ustr" where
  "normalize_text U v =
     (let text = (case v of None \<Rightarrow> [] | Some t \<Rightarrow> t) in strip U (nfkc U text))"

definition acceptance_status :: "unicode \<Rightarrow> ustr \<Rightarrow> ustr" where
  "acceptance_status U name =
     (let n = lower U name in
      if contains (asc ''accepted'') n then asc ''accepted''
      else if contains (asc ''declined'') n then asc ''declined''
      else asc ''neutral'')"

text \<open>
  \<open>FAMILY_RULES\<close>, in the order of the source. The code points 225, 252 and 233 are the
  letters a-acute, u-diaeresis and e-acute of the patterns.
\<close>

definition FAMILY_RULES :: "(rx \<times> ustr) list" where
  "FAMILY_RULES = [
    (word ''sicilian'', asc ''sicilian-defense''),
    (word ''french'', asc ''french-defense''),
    (cat [WB, lit ''caro'', opt_sep, lit ''kann'', WB], asc ''caro-kann-defense''),
    (Alt (word ''scandinavian'') (cat [WB, lit ''center'', Plus Space, lit ''counter'', WB]),
       asc ''scandinavian-defense''),
    (Alt (word ''italian'') (word ''giuoco''), asc ''italian-game''),
    (Alt (cat [WB, lit ''ruy'', Star Space, lit ''lopez'', WB])
         (cat [WB, lit ''esp'', At (Set [cc CHR ''a'', CChar 225]), lit ''nol'',
               Opt (At (Set [cc CHR ''a''])), WB]),
       asc ''ruy-lopez''),
    (word ''vienna'', asc ''vienna-game''),
    (word ''scotch'', asc ''scotch-game''),
    (cat [WB, lit ''two'', Plus Space, lit ''knights'', WB], asc ''two-knights-defense''),
    (cat [WB, lit ''four'', Plus Space, lit ''knights'', WB], asc ''four-knights-game''),
    (word ''philidor'', asc ''philidor-defense''),
    (Alt (word ''petrov'') (word ''russian''), asc ''petrov-defense''),
    (Alt (word ''pirc'')
       (Alt (cat [WB, lit ''modern'', Plus Space, lit ''defense'', WB]) (word ''modern'')),
       asc ''pirc-modern''),
    (Alt (cat [WB, lit ''alekhin'', Opt (ch CHR ''e''), WB])
       (Alt (cat [WB, lit ''alekhin'', Opt (ch CHR ''e''), Opt (ch (CHR 0x27)), lit ''s'', WB])
       (Alt (word ''alekhine'') (Alt (word ''alekhine'') (Alt (word ''alekhine'')
            (word ''alekhine''))))),
       asc ''alekhine-defense''),
    (word ''dutch'', asc ''dutch-defense''),
    (word ''benoni'', asc ''benoni-defense''),
    (cat [WB, lit ''old'', Plus Space, lit ''benoni'', WB], asc ''benoni-defense''),
    (cat [WB, lit ''modern'', Plus Space, lit ''benoni'', WB], asc ''benoni-defense''),
    (Alt (word ''benko'') (word ''volga''), asc ''benko-gambit''),
    (cat [WB, lit ''gr'', At (Set [cc CHR ''u'', CChar 252]), lit ''nfeld'', WB],
       asc ''grunfeld-defense''),
    (cat [WB, lit ''nimzo'', opt_sep, lit ''indian'', WB], asc ''nimzo-indian-defense''),
    (cat [WB, lit ''bogo'', opt_sep, lit ''indian'', WB], asc ''bogo-indian-defense''),
    (cat [WB, lit ''queen'', opt_possessive, Plus Space, lit ''indian'', WB],
       asc ''queens-indian-defense''),
    (cat [WB, lit ''king'', opt_possessive, opt_sep, lit ''indian'', WB],
       asc ''kings-indian-defense''),
    (word ''slav'', asc ''slav-defense''),
    (cat [WB, lit ''semi'', opt_sep, lit ''slav'', WB], asc ''semi-slav-defense''),
    (cat [WB, lit ''queen'', opt_possessive, Plus Space, lit ''gambit'', WB],
       asc ''queens-gambit''),
    (word ''catalan'', asc ''catalan-opening''),
    (word ''english'', asc ''english-opening''),
    (Alt (cat [WB, lit ''r'', At (Set [CChar 233, cc CHR ''e'']), lit ''ti'', WB])
         (word ''reti''),
       asc ''reti-opening''),
    (cat [WB, lit ''bird'', opt_possessive, WB], asc ''birds-opening''),
    (word ''london'', asc ''london-system''),
    (word ''colle'', asc ''colle-system''),
    (word ''trompowsky'', asc ''trompowsky-attack''),
    (Alt (word ''veresov'') (word ''jobava''), asc ''veresov-opening''),
    (cat [WB, lit ''king'', opt_possessive, Plus Space, lit ''gambit'', WB],
       asc ''kings-gambit''),
    (cat [WB, lit ''center'', Plus Space, lit ''game'', WB], asc ''center-game''),
    (word ''scandinavian'', asc ''scandinavian-defense'')
  ]"

text \<open>\<open>FAMILY_SYNONYMS\<close>; a dict is iterated in insertion order.\<close>

definition FAMILY_SYNONYMS :: "(ustr \<times> ustr) list" where
  "FAMILY_SYNONYMS = [
    (asc ''king s'', asc ''kings''),
    (asc ''queen s'', asc ''queens''),
    (asc ''bird s'', asc ''birds''),
    (asc ''ruy l pez'', asc ''ruy lopez''),
    (asc ''gr nfeld'', asc ''grunfeld'')
  ]"

text \<open>The loop \<open>for k, v in FAMILY_SYNONYMS.items(): n = n.replace(k, v)\<close>.\<close>

fun apply_synonyms :: "(ustr \<times> ustr) list \<Rightarrow> ustr \<Rightarrow> ustr" where
  "apply_synonyms [] n = n"
| "apply_synonyms ((k, v) # kvs) n = apply_synonyms kvs (replace k v n)"

text \<open>
  The loop \<open>for pattern, fam in FAMILY_RULES: if re.search(pattern, n): return fam, 0.99\<close>:
  the family of the first rule whose pattern is found, \<open>None\<close> when the loop runs out.
\<close>

fun first_rule :: "unicode \<Rightarrow> (rx \<times> ustr) list \<Rightarrow> ustr \<Rightarrow> ustr option" where
  "first_rule U [] n = None"
| "first_rule U ((pattern, fam) # rules) n =
     (if re_search U pattern n then Some fam else first_rule U rules n)"

text \<open>
  The ECO band patterns, used with \<open>re.match\<close>. \<open>d2 s\<close> is \<open>s\\d\<close> for a two-letter
  prefix \<open>s\<close>.
\<close>

definition d2 :: "string \<Rightarrow> rx" where
  "d2 s = Seq (lit s) (At Digit)"

text \<open>
  A confidence is a Python float written as a decimal literal; the program only compares
  such literals with each other, and these comparisons agree with the comparisons of the
  decimal numbers they denote, so the model uses real numbers.
\<close>

text \<open>
  Lines 103 to 134 of \<open>canonical_family\<close>: the chain of \<open>if re.match(...)\<close> on the
  upper-cased, stripped code, ending in \<open>return "", 0.0\<close>.
\<close>

definition eco_fallback :: "unicode \<Rightarrow> ustr \<Rightarrow> ustr \<times> real" where
  "eco_fallback U eco =
     (if re_match U (cat [lit ''B'', At (Set [rng CHR ''2'' CHR ''9'']), At Digit]) eco
        then (asc ''sicilian-defense'', 0.90)
      else if re_match U (Alt (d2 ''C0'') (d2 ''C1'')) eco
        then (asc ''french-defense'', 0.90)
      else if re_match U (d2 ''B1'') eco
        then (asc ''caro-kann-defense'', 0.85)
      else if re_match U (Seq (lit ''B0'') (At (Set [cc CHR ''6'', rng CHR ''7'' CHR ''9'']))) eco
        then (asc ''pirc-modern'', 0.80)
      else if re_match U (Seq (lit ''B0'') (At (Set [rng CHR ''0'' CHR ''5'']))) eco
        then (asc ''open-games'', 0.80)
      else if re_match U (Alt (d2 ''A8'') (d2 ''A9'')) eco
        then (asc ''dutch-defense'', 0.90)
      else if re_match U (Alt (Seq (lit ''A5'') (At (Set [rng CHR ''6'' CHR ''9'']))) (d2 ''A7'')) eco
        then (asc ''benoni-defense'', 0.85)
      else if re_match U (Alt (d2 ''D0'') (Alt (d2 ''D3'') (Alt (d2 ''D4'') (d2 ''D6'')))) eco
        then (asc ''queens-gambit'', 0.85)
      else if re_match U (d2 ''D1'') eco
        then (asc ''slav-defense'', 0.85)
      else if re_match U (Alt (d2 ''D2'') (d2 ''D5'')) eco
        then (asc ''queens-gambit'', 0.80)
      else if re_match U (Seq (lit ''E0'') (At (Set [rng CHR ''0'' CHR ''9'']))) eco
        then (asc ''catalan-opening'', 0.80)
      else if re_match U (d2 ''E2'') eco
        then (asc ''nimzo-indian-defense'', 0.85)
      else if re_match U (d2 ''E3'') eco
        then (asc ''queens-indian-defense'', 0.85)
      else if re_match U (d2 ''E6'') eco
        then (asc ''kings-indian-defense'', 0.85)
      else if re_match U (Alt (d2 ''D7'') (Alt (d2 ''D8'') (d2 ''D9''))) eco
        then (asc ''grunfeld-defense'', 0.85)
      else ([], 0.0))"

text \<open>
  \<open>canonical_family\<close>. Its caller passes a string for \<open>eco_code\<close>, on which \<open>eco_code or ""\<close>
  is the identity.
\<close>

definition canonical_family :: "unicode \<Rightarrow> ustr \<Rightarrow> ustr \<Rightarrow> ustr \<times> real" where
  "canonical_family U name eco_code =
     (let n = apply_synonyms FAMILY_SYNONYMS (lower U name) in
      case first_rule U FAMILY_RULES n of
        Some fam \<Rightarrow> (fam, 0.99)
      | None \<Rightarrow>
          if re_search U (word ''dutch'') n \<and> re_search U (word ''staunton'') n
          then (asc ''dutch-defense'', 0.95)
          else eco_fallback U (strip U (upper U eco_code)))"

subsection \<open>Rows\<close>

text \<open>
  A row is the dict that \<open>csv.DictReader\<close> yields, a value being \<open>None\<close> where the line is
  short. \<open>read_rows\<close> normalises every value and adds the name of the file.
\<close>

type_synonym row = "ustr \<rightharpoonup> ustr"

definition normalize_row :: "unicode \<Rightarrow> ustr \<Rightarrow> (ustr \<rightharpoonup> ustr option) \<Rightarrow> row" where
  "normalize_row U file r =
     (\<lambda>k. if k = asc ''__source_file'' then Some file
          else map_option (normalize_text U) (r k))"

text \<open>
  \<open>a or b or ... or ""\<close> over results of \<open>r.get\<close>: the first value that is present and not
  empty, the empty string when there is none.
\<close>

fun first_truthy :: "ustr option list \<Rightarrow> ustr" where
  "first_truthy [] = []"
| "first_truthy (None # vs) = first_truthy vs"
| "first_truthy (Some v # vs) = (if v \<noteq> [] then v else first_truthy vs)"

definition get_name :: "row \<Rightarrow> ustr" where
  "get_name r = first_truthy
     [r (asc ''Name''), r (asc ''name''), r (asc ''opening''), r (asc ''alias_name'')]"

definition get_eco :: "row \<Rightarrow> ustr" where
  "get_eco r = first_truthy [r (asc ''eco''), r (asc ''ECO''), r (asc ''eco_code'')]"

definition get_slug :: "row \<Rightarrow> ustr" where
  "get_slug r = first_truthy [r (asc ''slug''), r (asc ''alias_slug'')]"

definition get_fam_hint :: "row \<Rightarrow> ustr" where
  "get_fam_hint r = first_truthy
     [r (asc ''family name''), r (asc ''family_name''), r (asc ''family'')]"

subsection \<open>The family key of a hint\<close>

text \<open>
  Lines 174 to 183 of \<open>main\<close>, which the specification calls \<open>slugify_hint\<close>. The code
  points 8217, 96 and 180 are the right single quotation mark, the grave accent and the
  acute accent; 39 is the apostrophe.
\<close>

definition slugify_hint :: "unicode \<Rightarrow> ustr \<Rightarrow> ustr" where
  "slugify_hint U fam_hint =
     (let fam_norm = nfkd U fam_hint;
          fam_norm = replace [180] [39] (replace [96] [39] (replace [8217] [39] fam_norm));
          fam_norm = re_sub U (cat [ch (CHR 0x27), lit ''s'', WB]) (asc ''s'') fam_norm;
          fam_norm = re_sub U
            (Plus (NSet [rng CHR ''A'' CHR ''Z'', rng CHR ''a'' CHR ''z'', rng CHR ''0'' CHR ''9'']))
            (asc ''-'') (strip U fam_norm);
          fam_key = strip_chars (asc ''-'') (lower U fam_norm);
          fam_key = replace (asc ''-s-'') (asc ''s-'') fam_key;
          fam_key = replace (asc ''-s-'') (asc ''s-'') fam_key;
          fam_key = replace (asc ''-gambit-gambit'') (asc ''-gambit'') fam_key
      in fam_key)"

subsection \<open>The body of the loop of \<open>main\<close>\<close>

text \<open>Lines 171 to 187: the hint first, \<open>canonical_family\<close> when it gives no key.\<close>

definition resolve :: "unicode \<Rightarrow> ustr \<Rightarrow> ustr \<Rightarrow> ustr \<Rightarrow> ustr \<times> real" where
  "resolve U name eco fam_hint =
     (let (fam_key, conf) =
            (if fam_hint \<noteq> [] \<and> upper U fam_hint \<noteq> asc ''#N/A''
             then (slugify_hint U fam_hint, 0.90) else ([], 0.0))
      in if fam_key = [] then canonical_family U name eco else (fam_key, conf))"

text \<open>Lines 190 to 194.\<close>

definition staunton_note :: "unicode \<Rightarrow> ustr \<Rightarrow> ustr" where
  "staunton_note U name =
     (if re_search U (word ''dutch'') (lower U name)
         \<and> re_search U (word ''staunton'') (lower U name)
      then asc ''inferred staunton under dutch'' else [])"

text \<open>Lines 189, 196 and 197.\<close>

definition review_needed :: "ustr \<Rightarrow> real \<Rightarrow> bool" where
  "review_needed fam_key conf = (fam_key = [] \<or> conf < 0.85)"

text \<open>
  \<open>f"{conf:.2f}"\<close> for a number of hundredths that is not negative, which every confidence
  of the program is.
\<close>

function decimal :: "nat \<Rightarrow> ustr" where
  "decimal n = (if n < 10 then [48 + n] else decimal (n div 10) @ [48 + n mod 10])"
  by pat_completeness auto
termination
  by (relation "measure id") auto

definition format_2f :: "real \<Rightarrow> ustr" where
  "format_2f x =
     (let h = nat \<lfloor>x * 100 + 1 / 2\<rfloor>
      in decimal (h div 100) @ asc ''.'' @ [48 + h div 10 mod 10, 48 + h mod 10])"

record crosswalk_row =
  source :: ustr
  alias_name :: ustr
  alias_slug :: ustr
  eco_code :: ustr
  canonical_family_key :: ustr
  acceptance :: ustr
  confidence :: ustr
  needs_review :: ustr
  cw_notes :: ustr

record review_row =
  rv_alias_name :: ustr
  rv_alias_slug :: ustr
  rv_eco_code :: ustr
  reason :: ustr

text \<open>Lines 164 to 209: the dict appended to \<open>crosswalk\<close> for a row.\<close>

definition crosswalk_record :: "unicode \<Rightarrow> row \<Rightarrow> crosswalk_row" where
  "crosswalk_record U r =
     (let name = get_name r; eco = get_eco r; slug = get_slug r; fam_hint = get_fam_hint r;
          acc = acceptance_status U name;
          (fam_key, conf) = resolve U name eco fam_hint;
          note = staunton_note U name;
          needs_review = review_needed fam_key conf
      in \<lparr> source = (case r (asc ''__source_file'') of None \<Rightarrow> asc ''split'' | Some f \<Rightarrow> f),
           alias_name = name,
           alias_slug = slug,
           eco_code = eco,
           canonical_family_key = fam_key,
           acceptance = acc,
           confidence = format_2f conf,
           needs_review = (if needs_review then asc ''TRUE'' else asc ''FALSE''),
           cw_notes = note \<rparr>)"

text \<open>Lines 214 to 219: the dict appended to \<open>review\<close>.\<close>

definition review_record :: "row \<Rightarrow> review_row" where
  "review_record r =
     \<lparr> rv_alias_name = get_name r, rv_alias_slug = get_slug r, rv_eco_code = get_eco r,
       reason = asc ''low_confidence_or_unmatched'' \<rparr>"

text \<open>
  The three accumulators of \<open>main\<close>. \<open>families\<close> is a dict from key to count; it keeps the
  order in which its keys were first stored.
\<close>

record state =
  crosswalk :: "crosswalk_row list"
  review :: "review_row list"
  families :: "(ustr \<times> nat) list"

definition init :: state where
  "init = \<lparr> crosswalk = [], review = [], families = [] \<rparr>"

text \<open>\<open>families[k] = families.get(k, 0) + 1\<close>\<close>

definition bump :: "ustr \<Rightarrow> (ustr \<times> nat) list \<Rightarrow> (ustr \<times> nat) list" where
  "bump k fams = AList.update k ((case map_of fams k of None \<Rightarrow> 0 | Some n \<Rightarrow> n) + 1) fams"

definition loop_body :: "unicode \<Rightarrow> state \<Rightarrow> row \<Rightarrow> state" where
  "loop_body U st r =
     (let (fam_key, conf) = resolve U (get_name r) (get_eco r) (get_fam_hint r);
          needs_review = review_needed fam_key conf
      in \<lparr> crosswalk = crosswalk st @ [crosswalk_record U r],
           review = (if needs_review then review st @ [review_record r] else review st),
           families = (if fam_key \<noteq> [] then bump fam_key (families st) else families st) \<rparr>)"

text \<open>\<open>for r in rows\<close>\<close>

definition main_loop :: "unicode \<Rightarrow> row list \<Rightarrow> state" where
  "main_loop U rows = foldl (loop_body U) init rows"

subsection \<open>The canonical family table\<close>

text \<open>\<open>key.split("-")\<close> and \<open>" ".join(...)\<close>\<close>

fun split_on :: "nat \<Rightarrow> ustr \<Rightarrow> ustr list" where
  "split_on d [] = [] # []"
| "split_on d (c # s) =
     (if c = d then [] # split_on d s
      else (case split_on d s of [] \<Rightarrow> [c] # [] | w # ws \<Rightarrow> (c # w) # ws))"

fun join :: "ustr \<Rightarrow> ustr list \<Rightarrow> ustr" where
  "join sep [] = []"
| "join sep [w] = w"
| "join sep (w # ws) = w @ sep @ join sep ws"

text \<open>
  Lines 250 to 252: one row for every key of \<open>families\<close>, in the order of \<open>sorted\<close>, which
  compares strings code point by code point.
\<close>

definition family_rows :: "unicode \<Rightarrow> (ustr \<times> nat) list \<Rightarrow> (ustr \<times> ustr \<times> ustr \<times> ustr) list" where
  "family_rows U fams =
     map (\<lambda>key. (key, join (asc '' '') (map (capitalize U) (split_on 45 key)), [],
                 asc ''seeded from alias mapping frequency''))
         (sort (map fst fams))"

section \<open>Notions used in the statements\<close>

text \<open>The value of \<open>conf\<close> after line 187 for a row; the crosswalk dict holds its rendering.\<close>

definition row_confidence :: "unicode \<Rightarrow> row \<Rightarrow> real" where
  "row_confidence U r = snd (resolve U (get_name r) (get_eco r) (get_fam_hint r))"

text \<open>
  The ECO band table of the specification: the patterns of the chain in \<open>eco_fallback\<close> with
  their results, in the order of the source, and the first band that matches.
\<close>

definition eco_band_table :: "(rx \<times> ustr \<times> real) list" where
  "eco_band_table = [
    (cat [lit ''B'', At (Set [rng CHR ''2'' CHR ''9'']), At Digit], asc ''sicilian-defense'', 0.90),
    (Alt (d2 ''C0'') (d2 ''C1''), asc ''french-defense'', 0.90),
    (d2 ''B1'', asc ''caro-kann-defense'', 0.85),
    (Seq (lit ''B0'') (At (Set [cc CHR ''6'', rng CHR ''7'' CHR ''9''])), asc ''pirc-modern'', 0.80),
    (Seq (lit ''B0'') (At (Set [rng CHR ''0'' CHR ''5''])), asc ''open-games'', 0.80),
    (Alt (d2 ''A8'') (d2 ''A9''), asc ''dutch-defense'', 0.90),
    (Alt (Seq (lit ''A5'') (At (Set [rng CHR ''6'' CHR ''9'']))) (d2 ''A7''),
       asc ''benoni-defense'', 0.85),
    (Alt (d2 ''D0'') (Alt (d2 ''D3'') (Alt (d2 ''D4'') (d2 ''D6''))), asc ''queens-gambit'', 0.85),
    (d2 ''D1'', asc ''slav-defense'', 0.85),
    (Alt (d2 ''D2'') (d2 ''D5''), asc ''queens-gambit'', 0.80),
    (Seq (lit ''E0'') (At (Set [rng CHR ''0'' CHR ''9''])), asc ''catalan-opening'', 0.80),
    (d2 ''E2'', asc ''nimzo-indian-defense'', 0.85),
    (d2 ''E3'', asc ''queens-indian-defense'', 0.85),
    (d2 ''E6'', asc ''kings-indian-defense'', 0.85),
    (Alt (d2 ''D7'') (Alt (d2 ''D8'') (d2 ''D9'')), asc ''grunfeld-defense'', 0.85)
  ]"

fun first_band :: "unicode \<Rightarrow> (rx \<times> ustr \<times> real) list \<Rightarrow> ustr \<Rightarrow> ustr \<times> real" where
  "first_band U [] eco = ([], 0)"
| "first_band U ((pattern, result) # bands) eco =
     (if re_match U pattern eco then result else first_band U bands eco)"

text \<open>The number of crosswalk records that carry a key, and of rows of a table for a key.\<close>

definition carrying :: "ustr \<Rightarrow> crosswalk_row list \<Rightarrow> nat" where
  "carrying k cw = length (filter (\<lambda>c. canonical_family_key c = k) cw)"

definition rows_for :: "ustr \<Rightarrow> (ustr \<times> ustr \<times> ustr \<times> ustr) list \<Rightarrow> nat" where
  "rows_for k table = length (filter (\<lambda>row. fst row = k) table)"

text \<open>
  A text contains \<open>w\<close> as a whole word: \<open>w\<close> occurs in it with no word character right
  before and none right after the occurrence.
\<close>

definition whole_word :: "unicode \<Rightarrow> ustr \<Rightarrow> ustr \<Rightarrow> bool" where
  "whole_word U w s =
     (\<exists>pre post. s = pre @ w @ post
        \<and> (pre = [] \<or> \<not> is_word U (last pre))
        \<and> (post = [] \<or> \<not> is_word U (hd post)))"

text \<open>Rows for the concrete cases.\<close>

definition row_b44 :: row where
  "row_b44 = [asc ''Name'' \<mapsto> [], asc ''eco'' \<mapsto> asc ''B44'', asc ''family'' \<mapsto> []]"

definition row_unmatched :: row where
  "row_unmatched =
     [asc ''Name'' \<mapsto> asc ''random unclassifiable string'', asc ''eco'' \<mapsto> asc ''Z99'']"

definition hint_straight :: ustr where
  "hint_straight = asc ''Queen'' @ [39] @ asc ''s Gambit''"

definition hint_curly :: ustr where
  "hint_curly = asc ''Queen'' @ [8217] @ asc ''s Gambit''"

definition row_dutch_hinted :: row where
  "row_dutch_hinted =
     [asc ''Name'' \<mapsto> asc ''Dutch Staunton'', asc ''family'' \<mapsto> asc ''Sicilian'']"


section \<open>Evaluation on concrete inputs\<close>

lemmas regex_eval =
  word_def lit_def asc_def ch_def cc_def rng_def d2_def opt_sep_def opt_possessive_def
  re_search_def re_match_def at_boundary_def word_before_def word_after_def
  py_ascii_def ascii_word_def ascii_digit_def py_space_def ascii_lower_def ascii_upper_def

lemma asc_Cons_ne: "asc (c # s) \<noteq> []"
  by (simp add: asc_def)

lemma true_ne_false: "asc ''TRUE'' \<noteq> asc ''FALSE''"
  by (simp add: asc_def)

lemma format_2f_values:
  "format_2f 0 = asc ''0.00''" "format_2f 0.80 = asc ''0.80''" "format_2f 0.85 = asc ''0.85''"
  "format_2f 0.90 = asc ''0.90''" "format_2f 0.95 = asc ''0.95''" "format_2f 0.99 = asc ''0.99''"
  by (simp_all add: format_2f_def asc_def)

lemma rules_empty_name: "first_rule py_ascii FAMILY_RULES [] = None"
  by (simp add: FAMILY_RULES_def regex_eval)

lemma name_empty: "apply_synonyms FAMILY_SYNONYMS (lower py_ascii []) = []"
  by (simp add: FAMILY_SYNONYMS_def replace_def py_ascii_def asc_def)

lemma canonical_family_b44:
  "canonical_family py_ascii [] (asc ''B44'') = (asc ''sicilian-defense'', 0.90)"
proof -
  note n = name_empty
  have d: "\<not> re_search py_ascii (word ''dutch'') []"
    by (simp add: regex_eval)
  have e: "strip py_ascii (upper py_ascii (asc ''B44'')) = asc ''B44''"
    by (simp add: strip_def strip_by_def regex_eval)
  have b: "re_match py_ascii (cat [lit ''B'', At (Set [rng CHR ''2'' CHR ''9'']), At Digit])
             (asc ''B44'')"
    by (simp add: regex_eval)
  show ?thesis
    unfolding canonical_family_def Let_def n rules_empty_name e eco_fallback_def
    using b d by simp
qed

lemma fields_b44:
  "get_name row_b44 = []" "get_eco row_b44 = asc ''B44''" "get_slug row_b44 = []"
  "get_fam_hint row_b44 = []"
  by (simp_all add: row_b44_def get_name_def get_eco_def get_slug_def get_fam_hint_def asc_def)

lemma resolve_b44:
  "resolve py_ascii (get_name row_b44) (get_eco row_b44) (get_fam_hint row_b44)
     = (asc ''sicilian-defense'', 0.90)"
  by (simp add: fields_b44 resolve_def canonical_family_b44)

lemmas string_eval = replace_def strip_def strip_by_def strip_chars_def re_sub_def

lemma slug_straight: "slugify_hint py_ascii hint_straight = asc ''queens-gambit''"
  by (simp add: slugify_hint_def hint_straight_def regex_eval string_eval)

lemma slug_curly: "slugify_hint py_ascii hint_curly = asc ''queens-gambit''"
  by (simp add: slugify_hint_def hint_curly_def regex_eval string_eval)

lemma name_semi_slav:
  "apply_synonyms FAMILY_SYNONYMS (lower py_ascii (asc ''Semi-Slav Defense''))
     = asc ''semi-slav defense''"
  by (simp add: FAMILY_SYNONYMS_def replace_def py_ascii_def ascii_lower_def asc_def)

lemma rules_semi_slav:
  "first_rule py_ascii FAMILY_RULES (asc ''semi-slav defense'') = Some (asc ''slav-defense'')"
  by (simp add: FAMILY_RULES_def regex_eval)

lemma name_modern_benoni:
  "apply_synonyms FAMILY_SYNONYMS (lower py_ascii (asc ''Modern Benoni''))
     = asc ''modern benoni''"
  by (simp add: FAMILY_SYNONYMS_def replace_def py_ascii_def ascii_lower_def asc_def)

lemma rules_modern_benoni:
  "first_rule py_ascii FAMILY_RULES (asc ''modern benoni'') = Some (asc ''pirc-modern'')"
  by (simp add: FAMILY_RULES_def regex_eval)

lemma name_dutch_staunton:
  "lower py_ascii (asc ''Dutch Staunton'') = asc ''dutch staunton''"
  "apply_synonyms FAMILY_SYNONYMS (asc ''dutch staunton'') = asc ''dutch staunton''"
  by (simp_all add: FAMILY_SYNONYMS_def replace_def py_ascii_def ascii_lower_def asc_def)

lemma rules_dutch_staunton:
  "first_rule py_ascii FAMILY_RULES (asc ''dutch staunton'') = Some (asc ''dutch-defense'')"
  by (simp add: FAMILY_RULES_def regex_eval)

lemma patterns_found:
  "re_search py_ascii (cat [WB, lit ''semi'', opt_sep, lit ''slav'', WB])
     (asc ''semi-slav defense'')"
  "re_search py_ascii (cat [WB, lit ''modern'', Plus Space, lit ''benoni'', WB])
     (asc ''modern benoni'')"
  "re_search py_ascii (word ''dutch'') (asc ''dutch staunton'')"
  "re_search py_ascii (word ''staunton'') (asc ''dutch staunton'')"
  by (simp_all add: regex_eval)

section \<open>The review flag and the confidence\<close>

lemma key_of_record:
  "canonical_family_key (crosswalk_record U r)
     = fst (resolve U (get_name r) (get_eco r) (get_fam_hint r))"
  by (simp add: crosswalk_record_def Let_def split: prod.splits)

lemma needs_review_of_record:
  "needs_review (crosswalk_record U r) =
     (if review_needed (canonical_family_key (crosswalk_record U r)) (row_confidence U r)
      then asc ''TRUE'' else asc ''FALSE'')"
  by (simp add: crosswalk_record_def row_confidence_def Let_def split: prod.splits)

lemma confidence_of_record:
  "confidence (crosswalk_record U r) = format_2f (row_confidence U r)"
  by (simp add: crosswalk_record_def row_confidence_def Let_def split: prod.splits)

text \<open>
  Claim C1. For every row and whatever the character database, the crosswalk record's
  \<open>needs_review\<close> is \<open>TRUE\<close> exactly when its family key is empty or the confidence is
  below 0.85, and \<open>FALSE\<close> otherwise: it is a function of these two alone. The record's
  \<open>confidence\<close> is the two-decimal rendering of that confidence.
\<close>

theorem needs_review_iff:
  "(needs_review (crosswalk_record U r) = asc ''TRUE'')
     = (canonical_family_key (crosswalk_record U r) = [] \<or> row_confidence U r < 0.85)
   \<and> (needs_review (crosswalk_record U r) = asc ''FALSE'')
     = (\<not> (canonical_family_key (crosswalk_record U r) = [] \<or> row_confidence U r < 0.85))
   \<and> confidence (crosswalk_record U r) = format_2f (row_confidence U r)"
  using true_ne_false
  by (simp add: needs_review_of_record confidence_of_record review_needed_def)

theorem needs_review_iff_witness:
  "needs_review (crosswalk_record py_ascii row_b44) = asc ''FALSE''
   \<and> canonical_family_key (crosswalk_record py_ascii row_b44) = asc ''sicilian-defense''
   \<and> confidence (crosswalk_record py_ascii row_b44) = asc ''0.90''"
  using needs_review_iff [of py_ascii row_b44]
  by (simp add: key_of_record row_confidence_def resolve_b44 asc_Cons_ne format_2f_def asc_def)

lemma first_rule_in_rules:
  "first_rule U rules n = Some fam \<Longrightarrow> fam \<in> snd ` set rules"
  by (induction rules) (auto split: if_splits)

lemma family_names_nonempty: "[] \<notin> snd ` set FAMILY_RULES"
  by (simp add: FAMILY_RULES_def asc_def)

lemma first_rule_nonempty: "first_rule U FAMILY_RULES n = Some fam \<Longrightarrow> fam \<noteq> []"
  using first_rule_in_rules family_names_nonempty by metis

lemma eco_fallback_cases:
  "eco_fallback U eco = (k, c) \<Longrightarrow>
     (k = [] \<and> c = 0) \<or> (k \<noteq> [] \<and> c \<in> {0.90, 0.85, 0.80})"
  unfolding eco_fallback_def
  by (auto simp: asc_Cons_ne split: if_splits)

lemma canonical_family_cases:
  "canonical_family U name eco = (k, c) \<Longrightarrow>
     (k = [] \<and> c = 0) \<or> (k \<noteq> [] \<and> c \<in> {0.99, 0.95, 0.90, 0.85, 0.80})"
  unfolding canonical_family_def Let_def
  by (auto simp: asc_Cons_ne dest: first_rule_nonempty eco_fallback_cases
           split: option.splits if_splits)

lemma resolve_cases:
  "resolve U name eco hint = (k, c) \<Longrightarrow>
     (k = [] \<and> c = 0) \<or> (k \<noteq> [] \<and> c \<in> {0.99, 0.95, 0.90, 0.85, 0.80})"
  unfolding resolve_def Let_def
  by (auto split: if_splits dest: canonical_family_cases)

text \<open>
  Claim C2. For every row, the confidence is 0 exactly when the family key is empty; with
  a key it is one of 0.99, 0.95, 0.90, 0.85 and 0.80; so it always lies in
  \<open>{0, 0.80, 0.85, 0.90, 0.95, 0.99}\<close>, and the record holds one of the six renderings.
\<close>

theorem confidence_values:
  "(row_confidence U r = 0) = (canonical_family_key (crosswalk_record U r) = [])
   \<and> (canonical_family_key (crosswalk_record U r) \<noteq> []
        \<longrightarrow> row_confidence U r \<in> {0.99, 0.95, 0.90, 0.85, 0.80})
   \<and> row_confidence U r \<in> {0, 0.80, 0.85, 0.90, 0.95, 0.99}
   \<and> confidence (crosswalk_record U r)
        \<in> {asc ''0.00'', asc ''0.80'', asc ''0.85'', asc ''0.90'', asc ''0.95'', asc ''0.99''}"
proof -
  obtain k c where kc: "resolve U (get_name r) (get_eco r) (get_fam_hint r) = (k, c)"
    by (cases "resolve U (get_name r) (get_eco r) (get_fam_hint r)")
  have k: "canonical_family_key (crosswalk_record U r) = k"
    by (simp add: key_of_record kc)
  have c: "row_confidence U r = c"
    by (simp add: row_confidence_def kc)
  from resolve_cases [OF kc]
  have cases: "(k = [] \<and> c = 0) \<or> (k \<noteq> [] \<and> c \<in> {0.99, 0.95, 0.90, 0.85, 0.80})" .
  then have "c \<in> {0, 0.80, 0.85, 0.90, 0.95, 0.99}" by auto
  then have "format_2f c
        \<in> {asc ''0.00'', asc ''0.80'', asc ''0.85'', asc ''0.90'', asc ''0.95'', asc ''0.99''}"
    by (elim insertE emptyE; hypsubst; simp only: format_2f_values insert_iff simp_thms)
  with cases show ?thesis
    unfolding k c confidence_of_record by auto
qed

theorem confidence_values_witness:
  "canonical_family_key (crosswalk_record py_ascii row_b44) \<noteq> []
   \<and> row_confidence py_ascii row_b44 \<in> {0.99, 0.95, 0.90, 0.85, 0.80}"
  using confidence_values [of py_ascii row_b44]
  by (simp add: key_of_record resolve_b44 asc_Cons_ne)

section \<open>The hint tier\<close>

text \<open>
  Claim C3. A hint that is not empty, is not \<open>#N/A\<close> in any letter case, and has a
  non-empty slug decides the result: the key is the slug and the confidence 0.90, for
  every name and every ECO code, which the result does not mention. So it is for the
  record of every row with that hint.
\<close>

theorem hint_takes_precedence:
  assumes "hint \<noteq> []" and "upper U hint \<noteq> asc ''#N/A''" and "slugify_hint U hint \<noteq> []"
  shows "resolve U name eco hint = (slugify_hint U hint, 0.90)
    \<and> (get_fam_hint r = hint \<longrightarrow>
          canonical_family_key (crosswalk_record U r) = slugify_hint U hint
        \<and> row_confidence U r = 0.90
        \<and> confidence (crosswalk_record U r) = asc ''0.90'')"
proof -
  have res: "\<And>name eco. resolve U name eco hint = (slugify_hint U hint, 0.90)"
    using assms by (simp add: resolve_def)
  show ?thesis
    by (simp add: res key_of_record confidence_of_record row_confidence_def format_2f_def asc_def)
qed

theorem hint_takes_precedence_witness:
  "hint_straight \<noteq> [] \<and> upper py_ascii hint_straight \<noteq> asc ''#N/A''
   \<and> slugify_hint py_ascii hint_straight \<noteq> []
   \<and> resolve py_ascii (asc ''Sicilian Defense'') (asc ''B44'') hint_straight
       = (asc ''queens-gambit'', 0.90)"
proof -
  have a: "hint_straight \<noteq> []" by (simp add: hint_straight_def)
  have b: "upper py_ascii hint_straight \<noteq> asc ''#N/A''"
    by (simp add: hint_straight_def py_ascii_def asc_def)
  have c: "slugify_hint py_ascii hint_straight \<noteq> []"
    by (simp add: slug_straight asc_Cons_ne)
  from hint_takes_precedence [OF a b c, of "asc ''Sicilian Defense''" "asc ''B44''"]
  show ?thesis using a b c by (simp add: slug_straight)
qed

text \<open>
  Claim C9. The hint \<open>Queen's Gambit\<close> gives the key \<open>queens-gambit\<close> whether its
  apostrophe is the right single quotation mark U+2019 or the ASCII apostrophe.
\<close>

theorem apostrophe_spellings_agree:
  "slugify_hint py_ascii hint_curly = asc ''queens-gambit''
   \<and> slugify_hint py_ascii hint_straight = asc ''queens-gambit''
   \<and> hint_curly = asc ''Queen'' @ [8217] @ asc ''s Gambit''
   \<and> hint_straight = asc ''Queen'' @ [39] @ asc ''s Gambit''"
  by (intro conjI) (rule slug_curly slug_straight hint_curly_def hint_straight_def)+

section \<open>The rule list\<close>

text \<open>The loop over the rules returns the family of the first rule whose pattern is found.\<close>

lemma first_rule_find:
  "first_rule U rules n = map_option snd (find (\<lambda>rule. re_search U (fst rule) n) rules)"
  by (induction rules) auto

lemma first_rule_None:
  "first_rule U rules n = None \<Longrightarrow> (pattern, fam) \<in> set rules \<Longrightarrow> \<not> re_search U pattern n"
  by (induction rules) (auto split: if_splits)

lemma dutch_in_rules: "(word ''dutch'', asc ''dutch-defense'') \<in> set FAMILY_RULES"
  by (simp add: FAMILY_RULES_def)

lemma no_rule_no_dutch:
  "first_rule U FAMILY_RULES n = None \<Longrightarrow> \<not> re_search U (word ''dutch'') n"
  using first_rule_None dutch_in_rules by blast

text \<open>
  The branch of line 98 returns 0.95, and no call of \<open>canonical_family\<close> does: where
  \<open>\\bdutch\\b\<close> is found, the rule of line 53 has returned before.
\<close>

lemma combined_rule_unreachable: "snd (canonical_family U name eco) \<noteq> 0.95"
proof (cases "first_rule U FAMILY_RULES (apply_synonyms FAMILY_SYNONYMS (lower U name))")
  case None
  obtain k c where kc: "eco_fallback U (strip U (upper U eco)) = (k, c)"
    by (cases "eco_fallback U (strip U (upper U eco))")
  from eco_fallback_cases [OF kc] have "c \<noteq> 0.95" by auto
  with None kc no_rule_no_dutch [OF None] show ?thesis
    by (simp add: canonical_family_def)
next
  case (Some fam)
  then show ?thesis by (simp add: canonical_family_def)
qed

text \<open>
  Claim C4. The name \<open>Dutch Staunton\<close> contains both words, and \<open>canonical_family\<close>
  returns \<open>dutch-defense\<close> with confidence 0.99, from the rule \<open>\\bdutch\\b\<close> of the main
  list, not 0.95.
\<close>

theorem dutch_staunton_confidence:
  "canonical_family py_ascii (asc ''Dutch Staunton'') [] = (asc ''dutch-defense'', 0.99)
   \<and> re_search py_ascii (word ''dutch'')
        (apply_synonyms FAMILY_SYNONYMS (lower py_ascii (asc ''Dutch Staunton'')))
   \<and> re_search py_ascii (word ''staunton'')
        (apply_synonyms FAMILY_SYNONYMS (lower py_ascii (asc ''Dutch Staunton'')))"
  by (simp add: canonical_family_def name_dutch_staunton rules_dutch_staunton patterns_found)

text \<open>
  Claim C5. The names \<open>Semi-Slav Defense\<close> and \<open>Modern Benoni\<close> contain the multi-word
  patterns of lines 64 and 56, and \<open>canonical_family\<close> returns the families of the generic
  patterns \<open>\\bslav\\b\<close> (line 63) and \<open>\\bmodern\\b\<close> (line 51), which come first.
\<close>

theorem generic_rule_before_specific:
  "canonical_family py_ascii (asc ''Semi-Slav Defense'') [] = (asc ''slav-defense'', 0.99)
   \<and> re_search py_ascii (cat [WB, lit ''semi'', opt_sep, lit ''slav'', WB])
        (apply_synonyms FAMILY_SYNONYMS (lower py_ascii (asc ''Semi-Slav Defense'')))
   \<and> canonical_family py_ascii (asc ''Modern Benoni'') [] = (asc ''pirc-modern'', 0.99)
   \<and> re_search py_ascii (cat [WB, lit ''modern'', Plus Space, lit ''benoni'', WB])
        (apply_synonyms FAMILY_SYNONYMS (lower py_ascii (asc ''Modern Benoni'')))"
  by (simp add: canonical_family_def name_semi_slav rules_semi_slav name_modern_benoni
        rules_modern_benoni patterns_found del: cat.simps)

section \<open>The ECO tier\<close>

lemma eco_fallback_first_band: "eco_fallback U eco = first_band U eco_band_table eco"
  by (simp add: eco_fallback_def eco_band_table_def)

text \<open>
  Claim C6. When the hint gives no key (it is empty, the sentinel, or has an empty slug)
  and no rule of the list matches the name, the result is that of the first band of the
  table that matches the upper-cased, stripped ECO code, and the empty key with confidence
  0 when none does. The row with empty name, empty hint and ECO code \<open>B44\<close> gets
  \<open>sicilian-defense\<close> and 0.90.
\<close>

theorem eco_tier:
  "((hint = [] \<or> upper U hint = asc ''#N/A'' \<or> slugify_hint U hint = [])
      \<and> first_rule U FAMILY_RULES (apply_synonyms FAMILY_SYNONYMS (lower U name)) = None
     \<longrightarrow> resolve U name eco hint = first_band U eco_band_table (strip U (upper U eco)))
   \<and> resolve py_ascii [] (asc ''B44'') [] = (asc ''sicilian-defense'', 0.90)
   \<and> canonical_family_key (crosswalk_record py_ascii row_b44) = asc ''sicilian-defense''
   \<and> confidence (crosswalk_record py_ascii row_b44) = asc ''0.90''"
proof -
  have "resolve U name eco hint = first_band U eco_band_table (strip U (upper U eco))"
    if h: "hint = [] \<or> upper U hint = asc ''#N/A'' \<or> slugify_hint U hint = []"
      and n: "first_rule U FAMILY_RULES (apply_synonyms FAMILY_SYNONYMS (lower U name)) = None"
  proof -
    have "resolve U name eco hint = canonical_family U name eco"
      using h by (auto simp: resolve_def)
    also have "\<dots> = eco_fallback U (strip U (upper U eco))"
      using n no_rule_no_dutch [OF n] by (simp add: canonical_family_def)
    finally show ?thesis by (simp add: eco_fallback_first_band)
  qed
  moreover have "resolve py_ascii [] (asc ''B44'') [] = (asc ''sicilian-defense'', 0.90)"
    using resolve_b44 by (simp add: fields_b44)
  moreover have "canonical_family_key (crosswalk_record py_ascii row_b44) = asc ''sicilian-defense''"
    by (simp add: key_of_record resolve_b44)
  moreover have "confidence (crosswalk_record py_ascii row_b44) = asc ''0.90''"
    by (simp add: confidence_of_record row_confidence_def resolve_b44 format_2f_def asc_def)
  ultimately show ?thesis by blast
qed

theorem eco_tier_witness:
  "first_rule py_ascii FAMILY_RULES (apply_synonyms FAMILY_SYNONYMS (lower py_ascii [])) = None
   \<and> resolve py_ascii [] (asc ''B44'') []
       = first_band py_ascii eco_band_table (strip py_ascii (upper py_ascii (asc ''B44'')))
   \<and> first_band py_ascii eco_band_table (strip py_ascii (upper py_ascii (asc ''B44'')))
       = (asc ''sicilian-defense'', 0.90)"
proof -
  have n: "first_rule py_ascii FAMILY_RULES (apply_synonyms FAMILY_SYNONYMS (lower py_ascii []))
             = None"
    by (simp only: name_empty rules_empty_name)
  from eco_tier [of "[]" py_ascii "[]" "asc ''B44''"] n
  have r: "resolve py_ascii [] (asc ''B44'') []
       = first_band py_ascii eco_band_table (strip py_ascii (upper py_ascii (asc ''B44'')))"
    by simp
  from eco_tier [of "[]" py_ascii "[]" "asc ''B44''"]
  have "resolve py_ascii [] (asc ''B44'') [] = (asc ''sicilian-defense'', 0.90)" by simp
  with r n show ?thesis by simp
qed

section \<open>The loop of \<open>main\<close>\<close>

lemma loop_body_crosswalk:
  "crosswalk (loop_body U st r) = crosswalk st @ [crosswalk_record U r]"
  by (simp add: loop_body_def Let_def split: prod.splits)

lemma loop_body_review:
  "review (loop_body U st r) =
     (if needs_review (crosswalk_record U r) = asc ''TRUE''
      then review st @ [review_record r] else review st)"
  using true_ne_false
  by (simp add: loop_body_def needs_review_of_record key_of_record row_confidence_def Let_def
           split: prod.splits)

lemma loop_body_families:
  "families (loop_body U st r) =
     (if canonical_family_key (crosswalk_record U r) \<noteq> []
      then bump (canonical_family_key (crosswalk_record U r)) (families st)
      else families st)"
  by (simp add: loop_body_def key_of_record Let_def split: prod.splits)

lemma foldl_crosswalk:
  "crosswalk (foldl (loop_body U) st rows) = crosswalk st @ map (crosswalk_record U) rows"
  by (induction rows arbitrary: st) (simp_all add: loop_body_crosswalk)

lemma foldl_review:
  "review (foldl (loop_body U) st rows) =
     review st @ map review_record
       (filter (\<lambda>r. needs_review (crosswalk_record U r) = asc ''TRUE'') rows)"
  by (induction rows arbitrary: st) (simp_all add: loop_body_review)

lemma main_loop_crosswalk: "crosswalk (main_loop U rows) = map (crosswalk_record U) rows"
  by (simp add: main_loop_def init_def foldl_crosswalk)

lemma main_loop_review:
  "review (main_loop U rows) =
     map review_record (filter (\<lambda>r. needs_review (crosswalk_record U r) = asc ''TRUE'') rows)"
  by (simp add: main_loop_def init_def foldl_review)

lemma rules_unmatched:
  "first_rule py_ascii FAMILY_RULES (asc ''random unclassifiable string'') = None"
  by (simp add: FAMILY_RULES_def regex_eval)

lemma name_unmatched:
  "apply_synonyms FAMILY_SYNONYMS (lower py_ascii (asc ''random unclassifiable string''))
     = asc ''random unclassifiable string''"
  by (simp add: FAMILY_SYNONYMS_def replace_def py_ascii_def ascii_lower_def asc_def)

lemma eco_z99: "eco_fallback py_ascii (strip py_ascii (upper py_ascii (asc ''Z99''))) = ([], 0)"
  by (simp add: eco_fallback_def string_eval regex_eval)

lemma no_dutch_unmatched:
  "\<not> re_search py_ascii (word ''dutch'') (asc ''random unclassifiable string'')"
  using no_rule_no_dutch [OF rules_unmatched] .

lemma canonical_family_unmatched:
  "canonical_family py_ascii (asc ''random unclassifiable string'') (asc ''Z99'') = ([], 0)"
  by (simp add: canonical_family_def name_unmatched rules_unmatched no_dutch_unmatched eco_z99)

lemma fields_unmatched:
  "get_name row_unmatched = asc ''random unclassifiable string''"
  "get_eco row_unmatched = asc ''Z99''" "get_slug row_unmatched = []"
  "get_fam_hint row_unmatched = []"
  by (simp_all add: row_unmatched_def get_name_def get_eco_def get_slug_def get_fam_hint_def
        asc_def)

lemma resolve_unmatched:
  "resolve py_ascii (get_name row_unmatched) (get_eco row_unmatched) (get_fam_hint row_unmatched)
     = ([], 0)"
  by (simp add: fields_unmatched resolve_def canonical_family_unmatched)

text \<open>
  Claim C7. The crosswalk holds exactly one record for each row, in order; the review
  list holds the review record of exactly the rows whose \<open>needs_review\<close> is \<open>TRUE\<close>; the
  reason of a review record is \<open>low_confidence_or_unmatched\<close>. The row with the name
  \<open>random unclassifiable string\<close>, no hint and ECO code \<open>Z99\<close> has the empty key, the
  confidence \<open>0.00\<close> and \<open>needs_review\<close> \<open>TRUE\<close>, and is in the review list with that reason.
\<close>

theorem one_record_per_row:
  "crosswalk (main_loop U rows) = map (crosswalk_record U) rows
   \<and> review (main_loop U rows)
       = map review_record (filter (\<lambda>r. needs_review (crosswalk_record U r) = asc ''TRUE'') rows)
   \<and> reason (review_record r) = asc ''low_confidence_or_unmatched''
   \<and> canonical_family_key (crosswalk_record py_ascii row_unmatched) = []
   \<and> confidence (crosswalk_record py_ascii row_unmatched) = asc ''0.00''
   \<and> needs_review (crosswalk_record py_ascii row_unmatched) = asc ''TRUE''
   \<and> review (main_loop py_ascii [row_unmatched])
       = [\<lparr> rv_alias_name = asc ''random unclassifiable string'', rv_alias_slug = [],
            rv_eco_code = asc ''Z99'', reason = asc ''low_confidence_or_unmatched'' \<rparr>]"
proof -
  have k: "canonical_family_key (crosswalk_record py_ascii row_unmatched) = []"
    by (simp add: key_of_record resolve_unmatched)
  have c: "confidence (crosswalk_record py_ascii row_unmatched) = asc ''0.00''"
    by (simp add: confidence_of_record row_confidence_def resolve_unmatched format_2f_def asc_def)
  have n: "needs_review (crosswalk_record py_ascii row_unmatched) = asc ''TRUE''"
    by (simp add: needs_review_of_record k review_needed_def)
  have rv: "review (main_loop py_ascii [row_unmatched])
       = [\<lparr> rv_alias_name = asc ''random unclassifiable string'', rv_alias_slug = [],
            rv_eco_code = asc ''Z99'', reason = asc ''low_confidence_or_unmatched'' \<rparr>]"
    by (simp add: main_loop_review n review_record_def fields_unmatched)
  have r: "reason (review_record r) = asc ''low_confidence_or_unmatched''"
    by (simp add: review_record_def)
  from k c n rv r main_loop_crosswalk main_loop_review show ?thesis by blast
qed

theorem one_record_per_row_witness:
  "length (crosswalk (main_loop py_ascii [row_unmatched, row_b44])) = 2
   \<and> length (review (main_loop py_ascii [row_unmatched, row_b44])) = 1"
proof -
  have n: "needs_review (crosswalk_record py_ascii row_unmatched) = asc ''TRUE''"
    using one_record_per_row by blast
  have m: "needs_review (crosswalk_record py_ascii row_b44) \<noteq> asc ''TRUE''"
    using needs_review_of_record [of py_ascii row_b44] true_ne_false
    by (simp add: key_of_record row_confidence_def resolve_b44 review_needed_def asc_Cons_ne)
  from one_record_per_row [of py_ascii "[row_unmatched, row_b44]"] n m
  show ?thesis by simp
qed

section \<open>The family counts\<close>

lemma carrying_simps:
  "carrying k [] = 0"
  "carrying k (c # cw) = (if canonical_family_key c = k then 1 else 0) + carrying k cw"
  by (simp_all add: carrying_def)

lemma map_of_bump:
  "map_of (bump k fams) k' =
     (if k' = k then Some ((case map_of fams k of None \<Rightarrow> 0 | Some n \<Rightarrow> n) + 1)
      else map_of fams k')"
  by (simp add: bump_def update_conv')

lemma distinct_bump: "distinct (map fst fams) \<Longrightarrow> distinct (map fst (bump k fams))"
  by (simp add: bump_def distinct_update)

lemma foldl_families_distinct:
  "distinct (map fst (families st)) \<Longrightarrow>
     distinct (map fst (families (foldl (loop_body U) st rows)))"
  by (induction rows arbitrary: st) (simp_all add: loop_body_families distinct_bump)

lemma foldl_families_count:
  "map_of (families (foldl (loop_body U) st rows)) k =
     (if k = [] \<or> carrying k (map (crosswalk_record U) rows) = 0 then map_of (families st) k
      else Some ((case map_of (families st) k of None \<Rightarrow> 0 | Some n \<Rightarrow> n)
                 + carrying k (map (crosswalk_record U) rows)))"
proof (induction rows arbitrary: st)
  case Nil
  show ?case by (simp add: carrying_simps)
next
  case (Cons r rows)
  show ?case
    by (simp add: Cons.IH loop_body_families map_of_bump carrying_simps)
qed

lemma main_loop_families:
  "map_of (families (main_loop U rows)) k =
     (if k = [] \<or> carrying k (crosswalk (main_loop U rows)) = 0 then None
      else Some (carrying k (crosswalk (main_loop U rows))))"
  by (simp add: main_loop_crosswalk) (simp add: main_loop_def init_def foldl_families_count)

lemma main_loop_distinct: "distinct (map fst (families (main_loop U rows)))"
  by (simp add: main_loop_def init_def foldl_families_distinct)

lemma distinct_filter_eq:
  "distinct xs \<Longrightarrow> length (filter (\<lambda>x. x = k) xs) = (if k \<in> set xs then 1 else 0)"
  by (induction xs) auto

lemma rows_for_key:
  "rows_for k (family_rows U fams) = length (filter (\<lambda>x. x = k) (map fst fams))"
proof -
  have "rows_for k (family_rows U fams)
          = length (filter (\<lambda>x. x = k) (sort (map fst fams)))"
    by (simp add: rows_for_def family_rows_def filter_map comp_def)
  also have "\<dots> = length (sort (filter (\<lambda>x. x = k) (map fst fams)))"
    by (simp only: filter_sort)
  finally show ?thesis by simp
qed

lemma family_rows_keys:
  "map fst fams = map fst fams' \<Longrightarrow> family_rows U fams = family_rows U fams'"
  by (simp add: family_rows_def)

lemma families_b44_once:
  "families (main_loop py_ascii [row_b44]) = [(asc ''sicilian-defense'', 1)]"
  using asc_Cons_ne [of "CHR ''s''" "''icilian-defense''"]
  by (simp add: main_loop_def init_def loop_body_families key_of_record resolve_b44 bump_def)

lemma families_b44_twice:
  "families (main_loop py_ascii [row_b44, row_b44]) = [(asc ''sicilian-defense'', 2)]"
  using asc_Cons_ne [of "CHR ''s''" "''icilian-defense''"]
  by (simp add: main_loop_def init_def loop_body_families key_of_record resolve_b44 bump_def)

lemma table_sicilian:
  "family_rows py_ascii [(asc ''sicilian-defense'', n)]
     = [(asc ''sicilian-defense'', asc ''Sicilian Defense'', [],
         asc ''seeded from alias mapping frequency'')]"
  by (simp add: family_rows_def py_ascii_def ascii_capitalize_def ascii_upper_def
        ascii_lower_def asc_def)

text \<open>
  Claim C8, as the code has it. For a key \<open>k\<close> that is not empty and is carried by a
  crosswalk record, the family table has exactly one row, and the dict \<open>families\<close> of
  \<open>main\<close> holds the number of crosswalk records that carry \<open>k\<close>, whatever their review
  flag; for the empty key and for a key no record carries there is no row and no count.
  The table is made from the keys of \<open>families\<close> alone: two dicts with the same keys give
  the same table, whatever their counts.
\<close>

theorem family_table_and_counts:
  "rows_for k (family_rows U (families (main_loop U rows)))
     = (if k \<noteq> [] \<and> 0 < carrying k (crosswalk (main_loop U rows)) then 1 else 0)
   \<and> map_of (families (main_loop U rows)) k
     = (if k \<noteq> [] \<and> 0 < carrying k (crosswalk (main_loop U rows))
        then Some (carrying k (crosswalk (main_loop U rows))) else None)
   \<and> (map fst fams = map fst fams' \<longrightarrow> family_rows U fams = family_rows U fams')"
proof -
  let ?fams = "families (main_loop U rows)"
  have m: "map_of ?fams k
     = (if k \<noteq> [] \<and> 0 < carrying k (crosswalk (main_loop U rows))
        then Some (carrying k (crosswalk (main_loop U rows))) else None)"
    by (simp add: main_loop_families)
  have "rows_for k (family_rows U ?fams) = (if k \<in> set (map fst ?fams) then 1 else 0)"
    using main_loop_distinct [of U rows] by (simp only: rows_for_key distinct_filter_eq)
  also have "k \<in> set (map fst ?fams) \<longleftrightarrow> map_of ?fams k \<noteq> None"
    by (simp add: map_of_eq_None_iff)
  finally have "rows_for k (family_rows U ?fams)
     = (if k \<noteq> [] \<and> 0 < carrying k (crosswalk (main_loop U rows)) then 1 else 0)"
    by (simp add: m)
  with m family_rows_keys [of fams fams' U] show ?thesis by simp
qed

theorem family_table_and_counts_witness:
  "map_of (families (main_loop py_ascii [row_b44, row_unmatched, row_b44]))
       (asc ''sicilian-defense'') = Some 2
   \<and> rows_for (asc ''sicilian-defense'')
       (family_rows py_ascii (families (main_loop py_ascii [row_b44, row_unmatched, row_b44])))
       = 1
   \<and> map fst [(asc ''sicilian-defense'', 1::nat)] = map fst [(asc ''sicilian-defense'', 2::nat)]
   \<and> family_rows py_ascii [(asc ''sicilian-defense'', 1)]
       = family_rows py_ascii [(asc ''sicilian-defense'', 2)]"
proof -
  have c: "carrying (asc ''sicilian-defense'')
             (crosswalk (main_loop py_ascii [row_b44, row_unmatched, row_b44])) = 2"
    using asc_Cons_ne [of "CHR ''s''" "''icilian-defense''"]
    by (simp add: main_loop_crosswalk carrying_simps key_of_record resolve_b44 resolve_unmatched
          del: foldl.simps)
  have k: "map fst [(asc ''sicilian-defense'', 1::nat)] = map fst [(asc ''sicilian-defense'', 2::nat)]"
    by simp
  note t = family_table_and_counts [of "asc ''sicilian-defense''" py_ascii
      "[row_b44, row_unmatched, row_b44]" "[(asc ''sicilian-defense'', 1)]"
      "[(asc ''sicilian-defense'', 2)]"]
  from t k have e: "family_rows py_ascii [(asc ''sicilian-defense'', 1)]
       = family_rows py_ascii [(asc ''sicilian-defense'', 2)]"
    by blast
  from t have "map_of (families (main_loop py_ascii [row_b44, row_unmatched, row_b44]))
       (asc ''sicilian-defense'') = Some 2
   \<and> rows_for (asc ''sicilian-defense'')
       (family_rows py_ascii (families (main_loop py_ascii [row_b44, row_unmatched, row_b44])))
       = 1"
    using asc_Cons_ne [of "CHR ''s''" "''icilian-defense''"] by (simp only: c) simp
  with k e show ?thesis by blast
qed

text \<open>
  The table does not hold the occurrence count. With one record carrying
  \<open>sicilian-defense\<close> and with two, the table is the same single row: the key, the display
  name, the empty \<open>eco_group\<close> and the fixed note.
\<close>

theorem family_table_has_no_count:
  "family_rows py_ascii (families (main_loop py_ascii [row_b44]))
     = [(asc ''sicilian-defense'', asc ''Sicilian Defense'', [],
         asc ''seeded from alias mapping frequency'')]
   \<and> family_rows py_ascii (families (main_loop py_ascii [row_b44, row_b44]))
     = [(asc ''sicilian-defense'', asc ''Sicilian Defense'', [],
         asc ''seeded from alias mapping frequency'')]
   \<and> carrying (asc ''sicilian-defense'') (crosswalk (main_loop py_ascii [row_b44])) = 1
   \<and> carrying (asc ''sicilian-defense'') (crosswalk (main_loop py_ascii [row_b44, row_b44])) = 2"
proof -
  have 1: "carrying (asc ''sicilian-defense'') (crosswalk (main_loop py_ascii [row_b44])) = 1"
    by (simp add: main_loop_crosswalk carrying_simps key_of_record resolve_b44 del: foldl.simps)
  have 2: "carrying (asc ''sicilian-defense'')
             (crosswalk (main_loop py_ascii [row_b44, row_b44])) = 2"
    by (simp add: main_loop_crosswalk carrying_simps key_of_record resolve_b44 del: foldl.simps)
  show ?thesis
    by (simp only: families_b44_once families_b44_twice table_sicilian 1 2)
qed

section \<open>Whole words\<close>

lemma starts_with_iff: "starts_with w s \<longleftrightarrow> (\<exists>post. s = w @ post)"
  by (induction w s rule: starts_with.induct) auto

lemma search_from_iff:
  "search_from U r p s \<longleftrightarrow>
     (\<exists>pre post. s = pre @ post
        \<and> rmatch U r (if pre = [] then p else Some (last pre)) post \<noteq> [])"
proof (induction s arbitrary: p)
  case Nil
  show ?case by simp
next
  case (Cons c s)
  show ?case (is "?L = ?R")
  proof
    assume ?L
    then consider "rmatch U r p (c # s) \<noteq> []" | "search_from U r (Some c) s"
      by (auto split: if_splits)
    then show ?R
    proof cases
      case 1
      then have "c # s = [] @ (c # s) \<and> rmatch U r (if [] = [] then p else Some (last [])) (c # s) \<noteq> []"
        by simp
      then show ?thesis by blast
    next
      case 2
      then obtain pre post where s: "s = pre @ post"
        and m: "rmatch U r (if pre = [] then Some c else Some (last pre)) post \<noteq> []"
        using Cons.IH by blast
      have "c # s = (c # pre) @ post" using s by simp
      moreover have "rmatch U r (if c # pre = [] then p else Some (last (c # pre))) post \<noteq> []"
        using m by (cases "pre = []") simp_all
      ultimately show ?thesis by blast
    qed
  next
    assume ?R
    then obtain pre post where s: "c # s = pre @ post"
      and m: "rmatch U r (if pre = [] then p else Some (last pre)) post \<noteq> []"
      by blast
    show ?L
    proof (cases pre)
      case Nil
      with s have "post = c # s" by simp
      with m Nil show ?thesis by simp
    next
      case (Cons a pre')
      with s have c: "a = c" and s': "s = pre' @ post" by simp_all
      have "rmatch U r (if pre' = [] then Some c else Some (last pre')) post \<noteq> []"
        using m Cons c by (cases "pre' = []") simp_all
      with s' have "search_from U r (Some c) s" using Cons.IH by blast
      then show ?thesis by simp
    qed
  qed
qed

lemma rmatch_word:
  assumes "w \<noteq> []"
  shows "rmatch U (cat [WB, Lit w, WB]) p s \<noteq> [] \<longleftrightarrow>
           at_boundary U p s \<and> starts_with w s
         \<and> at_boundary U (Some (last w)) (drop (length w) s)"
  using assms
  by (cases "at_boundary U p s"; cases "starts_with w s";
      cases "at_boundary U (Some (last w)) (drop (length w) s)"; simp)

lemma whole_word_search:
  assumes w: "w \<noteq> []" and h: "is_word U (hd w)" and l: "is_word U (last w)"
  shows "re_search U (cat [WB, Lit w, WB]) s \<longleftrightarrow>
     (\<exists>pre post. s = pre @ w @ post
        \<and> (pre = [] \<or> \<not> is_word U (last pre))
        \<and> (post = [] \<or> \<not> is_word U (hd post)))"
    (is "?L = ?R")
proof -
  have before: "at_boundary U (if pre = [] then None else Some (last pre)) (w @ post)
                  \<longleftrightarrow> pre = [] \<or> \<not> is_word U (last pre)" for pre post
    using w h by (cases w) (simp_all add: at_boundary_def word_before_def word_after_def)
  have after: "at_boundary U (Some (last w)) post \<longleftrightarrow> post = [] \<or> \<not> is_word U (hd post)"
    for post
    using l by (cases post) (simp_all add: at_boundary_def word_before_def word_after_def)
  have found: "?L \<longleftrightarrow>
      (\<exists>pre rest. s = pre @ rest
         \<and> at_boundary U (if pre = [] then None else Some (last pre)) rest
         \<and> starts_with w rest
         \<and> at_boundary U (Some (last w)) (drop (length w) rest))"
    by (simp only: re_search_def search_from_iff rmatch_word [OF w])
  show ?thesis
  proof
    assume ?L
    then obtain pre rest where s: "s = pre @ rest"
      and b: "at_boundary U (if pre = [] then None else Some (last pre)) rest"
      and p: "starts_with w rest"
      and a: "at_boundary U (Some (last w)) (drop (length w) rest)"
      using found by blast
    from p obtain post where rest: "rest = w @ post"
      using starts_with_iff by blast
    from a rest have "post = [] \<or> \<not> is_word U (hd post)"
      by (simp add: after)
    moreover from b rest have "pre = [] \<or> \<not> is_word U (last pre)"
      by (simp only: before)
    moreover from s rest have "s = pre @ w @ post" by simp
    ultimately show ?R by blast
  next
    assume ?R
    then obtain pre post where s: "s = pre @ w @ post"
      and b: "pre = [] \<or> \<not> is_word U (last pre)"
      and a: "post = [] \<or> \<not> is_word U (hd post)"
      by blast
    have 1: "at_boundary U (if pre = [] then None else Some (last pre)) (w @ post)"
      using b by (simp only: before)
    have 2: "starts_with w (w @ post)"
      using starts_with_iff by blast
    have 3: "at_boundary U (Some (last w)) (drop (length w) (w @ post))"
      using a by (simp add: after)
    from s 1 2 3 show ?L
      unfolding found by blast
  qed
qed

section \<open>The note\<close>

lemma note_of_record: "cw_notes (crosswalk_record U r) = staunton_note U (get_name r)"
  by (simp add: crosswalk_record_def Let_def split: prod.splits)

lemma fields_dutch_hinted:
  "get_name row_dutch_hinted = asc ''Dutch Staunton''"
  "get_eco row_dutch_hinted = []" "get_slug row_dutch_hinted = []"
  "get_fam_hint row_dutch_hinted = asc ''Sicilian''"
  by (simp_all add: row_dutch_hinted_def get_name_def get_eco_def get_slug_def get_fam_hint_def
        asc_def)

lemma slug_sicilian: "slugify_hint py_ascii (asc ''Sicilian'') = asc ''sicilian''"
  by (simp add: slugify_hint_def regex_eval string_eval)

lemma resolve_dutch_hinted:
  "resolve py_ascii (get_name row_dutch_hinted) (get_eco row_dutch_hinted)
     (get_fam_hint row_dutch_hinted) = (asc ''sicilian'', 0.90)"
proof -
  have a: "asc ''Sicilian'' \<noteq> []" by (simp add: asc_def)
  have b: "upper py_ascii (asc ''Sicilian'') \<noteq> asc ''#N/A''"
    by (simp add: py_ascii_def asc_def)
  have c: "asc ''sicilian'' \<noteq> []" by (simp add: asc_def)
  show ?thesis
    using a b c by (simp add: fields_dutch_hinted resolve_def slug_sicilian)
qed

lemma note_dutch_hinted:
  "staunton_note py_ascii (asc ''Dutch Staunton'') = asc ''inferred staunton under dutch''"
  by (simp add: staunton_note_def name_dutch_staunton patterns_found)

text \<open>
  Claim C10. The \<open>notes\<close> of the crosswalk record are \<open>inferred staunton under dutch\<close> when
  \<open>\\bdutch\\b\<close> and \<open>\\bstaunton\\b\<close> are both found in the lower-cased name, and empty
  otherwise. Where the first and last letters of the two words are word characters, as in
  Unicode, this is: when the lower-cased name contains both as whole words. Nothing but the
  name enters: the row with the name \<open>Dutch Staunton\<close> and the hint \<open>Sicilian\<close> gets its key
  from the hint and still has the note.
\<close>

theorem note_from_name_alone:
  "cw_notes (crosswalk_record U r) =
     (if re_search U (word ''dutch'') (lower U (get_name r))
         \<and> re_search U (word ''staunton'') (lower U (get_name r))
      then asc ''inferred staunton under dutch'' else [])
   \<and> (is_word U (hd (asc ''dutch'')) \<and> is_word U (last (asc ''dutch''))
        \<and> is_word U (hd (asc ''staunton'')) \<and> is_word U (last (asc ''staunton''))
       \<longrightarrow> (cw_notes (crosswalk_record U r) = asc ''inferred staunton under dutch'')
             = (whole_word U (asc ''dutch'') (lower U (get_name r))
                \<and> whole_word U (asc ''staunton'') (lower U (get_name r))))
   \<and> cw_notes (crosswalk_record py_ascii row_dutch_hinted) = asc ''inferred staunton under dutch''
   \<and> canonical_family_key (crosswalk_record py_ascii row_dutch_hinted) = asc ''sicilian''
   \<and> get_fam_hint row_dutch_hinted = asc ''Sicilian''"
proof -
  have code: "cw_notes (crosswalk_record U r) =
     (if re_search U (word ''dutch'') (lower U (get_name r))
         \<and> re_search U (word ''staunton'') (lower U (get_name r))
      then asc ''inferred staunton under dutch'' else [])"
    by (simp add: note_of_record staunton_note_def)
  have words: "(cw_notes (crosswalk_record U r) = asc ''inferred staunton under dutch'')
             = (whole_word U (asc ''dutch'') (lower U (get_name r))
                \<and> whole_word U (asc ''staunton'') (lower U (get_name r)))"
    if d: "is_word U (hd (asc ''dutch''))" "is_word U (last (asc ''dutch''))"
      and s: "is_word U (hd (asc ''staunton''))" "is_word U (last (asc ''staunton''))"
  proof -
    have "re_search U (word ''dutch'') n = whole_word U (asc ''dutch'') n" for n
      unfolding word_def lit_def whole_word_def
      by (rule whole_word_search [OF asc_Cons_ne d])
    moreover have "re_search U (word ''staunton'') n = whole_word U (asc ''staunton'') n" for n
      unfolding word_def lit_def whole_word_def
      by (rule whole_word_search [OF asc_Cons_ne s])
    ultimately show ?thesis
      using asc_Cons_ne [of "CHR ''i''" "''nferred staunton under dutch''"]
      by (simp add: code)
  qed
  have n: "cw_notes (crosswalk_record py_ascii row_dutch_hinted)
             = asc ''inferred staunton under dutch''"
    by (simp add: note_of_record fields_dutch_hinted note_dutch_hinted)
  have k: "canonical_family_key (crosswalk_record py_ascii row_dutch_hinted) = asc ''sicilian''"
    by (simp add: key_of_record resolve_dutch_hinted)
  from code words n k fields_dutch_hinted(4) show ?thesis by blast
qed

theorem note_from_name_alone_witness:
  "is_word py_ascii (hd (asc ''dutch'')) \<and> is_word py_ascii (last (asc ''dutch''))
   \<and> is_word py_ascii (hd (asc ''staunton'')) \<and> is_word py_ascii (last (asc ''staunton''))
   \<and> cw_notes (crosswalk_record py_ascii row_dutch_hinted) = asc ''inferred staunton under dutch''
   \<and> whole_word py_ascii (asc ''dutch'') (lower py_ascii (get_name row_dutch_hinted))
   \<and> whole_word py_ascii (asc ''staunton'') (lower py_ascii (get_name row_dutch_hinted))"
proof -
  have w: "is_word py_ascii (hd (asc ''dutch''))" "is_word py_ascii (last (asc ''dutch''))"
    "is_word py_ascii (hd (asc ''staunton''))" "is_word py_ascii (last (asc ''staunton''))"
    by (simp_all add: py_ascii_def ascii_word_def asc_def)
  note t = note_from_name_alone [of py_ascii row_dutch_hinted]
  from t have n: "cw_notes (crosswalk_record py_ascii row_dutch_hinted)
                    = asc ''inferred staunton under dutch''"
    by blast
  from t w have "(cw_notes (crosswalk_record py_ascii row_dutch_hinted)
                    = asc ''inferred staunton under dutch'')
             = (whole_word py_ascii (asc ''dutch'') (lower py_ascii (get_name row_dutch_hinted))
                \<and> whole_word py_ascii (asc ''staunton'')
                     (lower py_ascii (get_name row_dutch_hinted)))"
    by blast
  with n w show ?thesis by blast
qed

end
